theory Spec2Isabelle
  imports Main "HOL-Library.Word"
begin

unbundle bit_operations_syntax

section \<open>The block-device conformance test of lib/bio/debug.c\<close>

text \<open>
  The development embeds the five functions at the end of \<^verbatim>\<open>lib/bio/debug.c\<close>:
  \<^verbatim>\<open>is_valid_block\<close>, \<^verbatim>\<open>erase_test\<close>, \<^verbatim>\<open>get_signature\<close>, \<^verbatim>\<open>write_test\<close> and
  \<^verbatim>\<open>bio_test_device\<close>.

  The C types come from headers that are not part of the file.  \<^verbatim>\<open>bnum_t\<close> and the
  argument of \<^verbatim>\<open>get_signature\<close> are \<^verbatim>\<open>uint32_t\<close>, \<^verbatim>\<open>erase_byte\<close> is a
  \<^verbatim>\<open>uint8_t\<close>, \<^verbatim>\<open>int\<close> and \<^verbatim>\<open>uint\<close> have 32 bits.  \<^verbatim>\<open>size_t\<close>,
  \<^verbatim>\<open>ssize_t\<close> and \<^verbatim>\<open>off_t\<close> are taken with 64 bits (the LP64 targets of the
  kernel); a signed type is a word read with \<open>sint\<close> and compared with \<open><s\<close>.
  A target whose \<^verbatim>\<open>size_t\<close> has 32 bits is not modelled: there the conversions
  between \<^verbatim>\<open>off_t\<close>, \<^verbatim>\<open>size_t\<close> and \<^verbatim>\<open>ssize_t\<close> lose bits for a device of
  \<open>2 ^ 31\<close> bytes or more.

  \<^verbatim>\<open>memalign\<close> is taken to succeed, as the code takes it (the pointer is not tested);
  the scratch buffers and their release are not part of the state.
\<close>

type_synonym uint8_t = "8 word"
type_synonym bnum_t = "32 word"
type_synonym uint = "32 word"
type_synonym int_t = "32 word"
type_synonym size_t = "64 word"
type_synonym ssize_t = "64 word"
type_synonym off_t = "64 word"

subsection \<open>The device and what the test does to it\<close>

text \<open>
  A \<^verbatim>\<open>bdev_t\<close> carries the geometry of the device and its operations.  The operations
  act on the device's own state \<open>'s\<close>, about which nothing is assumed: an operation
  may answer anything and may change the state in any way.  The geometry does not change
  during the test.

  \<^item> \<open>read_block s block count\<close> is \<^verbatim>\<open>device->read_block(device, buf, block, count)\<close>:
    it returns the status and the bytes that the caller's buffer holds after the call,
    by offset.
  \<^item> \<open>write_block s buf block count\<close> is \<^verbatim>\<open>bio_write_block(device, buf, block, count)\<close>,
    where \<open>buf\<close> is the contents of the caller's buffer.
  \<^item> \<open>erase s offset len\<close> is \<^verbatim>\<open>bio_erase(device, offset, len)\<close>.

  \<^verbatim>\<open>bio_write_block\<close> and \<^verbatim>\<open>bio_erase\<close> are functions of the bio library; they are
  parameters of the device here.
\<close>

record 's bdev =
  total_size :: off_t
  block_size :: size_t
  block_count :: bnum_t
  erase_byte :: uint8_t
  read_block :: "'s \<Rightarrow> bnum_t \<Rightarrow> uint \<Rightarrow> (ssize_t \<times> (nat \<Rightarrow> uint8_t)) \<times> 's"
  write_block :: "'s \<Rightarrow> uint8_t list \<Rightarrow> bnum_t \<Rightarrow> uint \<Rightarrow> ssize_t \<times> 's"
  erase :: "'s \<Rightarrow> off_t \<Rightarrow> size_t \<Rightarrow> ssize_t \<times> 's"

text \<open>The lines that the test prints, with the number each one shows.\<close>

datatype message =
    Erasing_device
  | Validating_erase
  | Error_performing_erase_test ssize_t
  | Discovered_errors_testing_erase ssize_t
  | Not_continuing_to_test_writes
  | Discovered_errors_testing_write ssize_t

text \<open>
  Everything the test does that can be seen from outside: a line printed, or a call of a
  device operation with its arguments and what the device answered.
\<close>

datatype event =
    Ev_printf message
  | Ev_erase off_t size_t ssize_t
  | Ev_read_block bnum_t uint ssize_t "nat \<Rightarrow> uint8_t"
  | Ev_write_block "uint8_t list" bnum_t uint ssize_t

text \<open>The state the test runs in: the state of the device, and the events so far.\<close>

record 's world =
  dstate :: 's
  trace :: "event list"

definition printf :: "message \<Rightarrow> 's world \<Rightarrow> 's world" where
  "printf m w = w\<lparr>trace := trace w @ [Ev_printf m]\<rparr>"

definition bio_erase :: "'s bdev \<Rightarrow> off_t \<Rightarrow> size_t \<Rightarrow> 's world \<Rightarrow> ssize_t \<times> 's world" where
  "bio_erase d offset len w =
     (case erase d (dstate w) offset len of
        (r, s') \<Rightarrow> (r, \<lparr>dstate = s', trace = trace w @ [Ev_erase offset len r]\<rparr>))"

definition dev_read_block ::
  "'s bdev \<Rightarrow> bnum_t \<Rightarrow> uint \<Rightarrow> 's world \<Rightarrow> (ssize_t \<times> (nat \<Rightarrow> uint8_t)) \<times> 's world" where
  "dev_read_block d block count w =
     (case read_block d (dstate w) block count of
        ((n, buf), s') \<Rightarrow>
          ((n, buf), \<lparr>dstate = s', trace = trace w @ [Ev_read_block block count n buf]\<rparr>))"

definition bio_write_block ::
  "'s bdev \<Rightarrow> uint8_t list \<Rightarrow> bnum_t \<Rightarrow> uint \<Rightarrow> 's world \<Rightarrow> ssize_t \<times> 's world" where
  "bio_write_block d buf block count w =
     (case write_block d (dstate w) buf block count of
        (r, s') \<Rightarrow> (r, \<lparr>dstate = s', trace = trace w @ [Ev_write_block buf block count r]\<rparr>))"

subsection \<open>is_valid_block\<close>

text \<open>
  The comparison loop of \<^verbatim>\<open>is_valid_block\<close>,
  \<^verbatim>\<open>for (size_t i = 0; i < device->block_size; i++)\<close>, from index \<open>i\<close> on: \<open>False\<close>
  at the first byte that differs from \<^verbatim>\<open>pattern[i % pattern_length]\<close>, \<open>True\<close> when
  the loop runs out.  The pattern is the array behind the pointer; the function is called
  with \<open>pattern_length\<close> positive and no more than the length of that array.
\<close>

function compare_from ::
  "size_t \<Rightarrow> (nat \<Rightarrow> uint8_t) \<Rightarrow> uint8_t list \<Rightarrow> size_t \<Rightarrow> size_t \<Rightarrow> bool" where
  "compare_from bsize block_contents pattern pattern_length i =
     (if i < bsize then
        (if block_contents (unat i) \<noteq> pattern ! unat (i mod pattern_length) then False
         else compare_from bsize block_contents pattern pattern_length (i + 1))
      else True)"
  by pat_completeness auto
termination
proof -
  have step: "unat n - unat (i + 1) < unat n - unat i" if "i < n" for i n :: "64 word"
  proof -
    from that have "i \<noteq> - 1"
      by (metis word_order.extremum_strict)
    then have "unat (i + 1) = Suc (unat i)"
      by (metis add.commute add_eq_0_iff2 unatSuc)
    with that show ?thesis
      by (simp add: word_less_nat_alt)
  qed
  show ?thesis
    by (relation "measure (\<lambda>(bsize, _, _, _, i). unat bsize - unat i)") (simp_all add: step)
qed

declare compare_from.simps [simp del]

definition is_valid_block ::
  "'s bdev \<Rightarrow> bnum_t \<Rightarrow> uint8_t list \<Rightarrow> size_t \<Rightarrow> 's world \<Rightarrow> bool \<times> 's world" where
  "is_valid_block device block_num pattern pattern_length w =
     (case dev_read_block device block_num 1 w of
        ((n_bytes, block_contents), w') \<Rightarrow>
          if n_bytes <s 0 \<or> n_bytes \<noteq> block_size device then (False, w')
          else (compare_from (block_size device) block_contents pattern pattern_length 0, w'))"

subsection \<open>erase_test\<close>

text \<open>
  The validation loop of \<^verbatim>\<open>erase_test\<close>,
  \<^verbatim>\<open>for (bnum_t bnum = 0; bnum < device->block_count; bnum++)\<close>, from block \<open>bnum\<close> on
  with \<open>num_invalid_blocks\<close> counted so far.  The pattern is the address of the device's
  \<^verbatim>\<open>erase_byte\<close>, its length \<^verbatim>\<open>sizeof(device->erase_byte)\<close>, which is 1.
\<close>

function erase_test_loop :: "'s bdev \<Rightarrow> bnum_t \<Rightarrow> size_t \<Rightarrow> 's world \<Rightarrow> size_t \<times> 's world" where
  "erase_test_loop device bnum num_invalid_blocks w =
     (if bnum < block_count device then
        (case is_valid_block device bnum [erase_byte device] 1 w of
           (valid, w') \<Rightarrow>
             erase_test_loop device (bnum + 1)
               (if \<not> valid then num_invalid_blocks + 1 else num_invalid_blocks) w')
      else (num_invalid_blocks, w))"
  by pat_completeness auto
termination
proof -
  have step: "unat n - unat (i + 1) < unat n - unat i" if "i < n" for i n :: "32 word"
  proof -
    from that have "i \<noteq> - 1"
      by (metis word_order.extremum_strict)
    then have "unat (i + 1) = Suc (unat i)"
      by (metis add.commute add_eq_0_iff2 unatSuc)
    with that show ?thesis
      by (simp add: word_less_nat_alt)
  qed
  show ?thesis
    by (relation "measure (\<lambda>(device, bnum, _, _). unat (block_count device) - unat bnum)") (simp_all add: step)
qed

declare erase_test_loop.simps [simp del]

text \<open>
  \<^verbatim>\<open>ERR_IO\<close> is a constant of \<^verbatim>\<open>err.h\<close>, which is not part of the file: it is the
  first argument of \<open>erase_test\<close>.  The length passed to \<^verbatim>\<open>bio_erase\<close> is
  \<^verbatim>\<open>device->total_size\<close> converted from \<^verbatim>\<open>off_t\<close> to \<^verbatim>\<open>size_t\<close>, the result is
  compared with \<^verbatim>\<open>device->total_size\<close> as signed 64-bit values, and the count is
  returned converted from \<^verbatim>\<open>size_t\<close> to \<^verbatim>\<open>ssize_t\<close>; with 64 bits on both sides
  each conversion keeps the bits.
\<close>

definition erase_test :: "ssize_t \<Rightarrow> 's bdev \<Rightarrow> 's world \<Rightarrow> ssize_t \<times> 's world" where
  "erase_test ERR_IO device w =
     (case bio_erase device 0 (total_size device) (printf Erasing_device w) of
        (err, w1) \<Rightarrow>
          if err <s 0 then (err, w1)
          else if err \<noteq> total_size device then (ERR_IO, w1)
          else erase_test_loop device 0 0 (printf Validating_erase w1))"

subsection \<open>get_signature\<close>

text \<open>
  \<^verbatim>\<open>sigptr[k]\<close> is the byte of the word at address offset \<open>k\<close>; on a little-endian
  target that is bits \<open>8 * k\<close> to \<open>8 * k + 7\<close>.  The four bytes are combined with a
  commutative operation, so the byte order of the target does not show in the result.
\<close>

definition sigptr :: "32 word \<Rightarrow> nat \<Rightarrow> uint8_t" where
  "sigptr word k = ucast (drop_bit (8 * k) word)"

definition get_signature :: "32 word \<Rightarrow> uint8_t" where
  "get_signature word = sigptr word 0 XOR sigptr word 1 XOR sigptr word 2 XOR sigptr word 3"

subsection \<open>write_test\<close>

text \<open>
  The first loop of \<^verbatim>\<open>write_test\<close> from block \<open>bnum\<close> on.  \<^verbatim>\<open>memset\<close> fills the
  \<^verbatim>\<open>block_size\<close> bytes of \<^verbatim>\<open>test_buffer\<close> with the signature of the block.  The
  result is \<open>Some err\<close> when the function returns \<open>err\<close> from inside the loop, and
  \<open>None\<close> when the loop runs out.
\<close>

function write_test_fill :: "'s bdev \<Rightarrow> bnum_t \<Rightarrow> 's world \<Rightarrow> ssize_t option \<times> 's world" where
  "write_test_fill device bnum w =
     (if bnum < block_count device then
        (case bio_write_block device
                (replicate (unat (block_size device)) (get_signature bnum)) bnum 1 w of
           (err, w') \<Rightarrow>
             if err <s 0 then (Some err, w')
             else write_test_fill device (bnum + 1) w')
      else (None, w))"
  by pat_completeness auto
termination
proof -
  have step: "unat n - unat (i + 1) < unat n - unat i" if "i < n" for i n :: "32 word"
  proof -
    from that have "i \<noteq> - 1"
      by (metis word_order.extremum_strict)
    then have "unat (i + 1) = Suc (unat i)"
      by (metis add.commute add_eq_0_iff2 unatSuc)
    with that show ?thesis
      by (simp add: word_less_nat_alt)
  qed
  show ?thesis
    by (relation "measure (\<lambda>(device, bnum, _). unat (block_count device) - unat bnum)") (simp_all add: step)
qed

declare write_test_fill.simps [simp del]

text \<open>
  The second loop of \<^verbatim>\<open>write_test\<close> from block \<open>bnum\<close> on, with \<open>num_errors\<close> counted
  so far; \<^verbatim>\<open>expected_pattern\<close> is an array of one byte.
\<close>

function write_test_verify :: "'s bdev \<Rightarrow> bnum_t \<Rightarrow> size_t \<Rightarrow> 's world \<Rightarrow> size_t \<times> 's world" where
  "write_test_verify device bnum num_errors w =
     (if bnum < block_count device then
        (case is_valid_block device bnum [get_signature bnum] 1 w of
           (valid, w') \<Rightarrow>
             write_test_verify device (bnum + 1)
               (if \<not> valid then num_errors + 1 else num_errors) w')
      else (num_errors, w))"
  by pat_completeness auto
termination
proof -
  have step: "unat n - unat (i + 1) < unat n - unat i" if "i < n" for i n :: "32 word"
  proof -
    from that have "i \<noteq> - 1"
      by (metis word_order.extremum_strict)
    then have "unat (i + 1) = Suc (unat i)"
      by (metis add.commute add_eq_0_iff2 unatSuc)
    with that show ?thesis
      by (simp add: word_less_nat_alt)
  qed
  show ?thesis
    by (relation "measure (\<lambda>(device, bnum, _, _). unat (block_count device) - unat bnum)") (simp_all add: step)
qed

declare write_test_verify.simps [simp del]

definition write_test :: "'s bdev \<Rightarrow> 's world \<Rightarrow> ssize_t \<times> 's world" where
  "write_test device w =
     (case write_test_fill device 0 w of
        (Some err, w1) \<Rightarrow> (err, w1)
      | (None, w1) \<Rightarrow> write_test_verify device 0 0 w1)"

subsection \<open>bio_test_device\<close>

text \<open>
  The result is an \<^verbatim>\<open>int\<close>: \<open>0\<close> or \<open>- 1\<close>.  \<^verbatim>\<open>if (num_errors)\<close> tests the
  \<^verbatim>\<open>ssize_t\<close> against zero.
\<close>

definition bio_test_device :: "ssize_t \<Rightarrow> 's bdev \<Rightarrow> 's world \<Rightarrow> int_t \<times> 's world" where
  "bio_test_device ERR_IO device w =
     (case erase_test ERR_IO device w of
        (num_errors, w1) \<Rightarrow>
          if num_errors <s 0 then
            (- 1, printf (Error_performing_erase_test num_errors) w1)
          else
            let w2 = printf (Discovered_errors_testing_erase num_errors) w1 in
            if num_errors \<noteq> 0 then (- 1, printf Not_continuing_to_test_writes w2)
            else
              (case write_test device w2 of
                 (num_errors, w3) \<Rightarrow>
                   let w4 = printf (Discovered_errors_testing_write num_errors) w3 in
                   if num_errors \<noteq> 0 then (- 1, w4) else (0, w4)))"

subsection \<open>Reading the trace\<close>

text \<open>The block and the count of a call of \<^verbatim>\<open>read_block\<close>; the buffer, block and count of
  a call of \<^verbatim>\<open>bio_write_block\<close>.\<close>

fun read_of :: "event \<Rightarrow> (bnum_t \<times> uint) option" where
  "read_of (Ev_read_block block count n buf) = Some (block, count)"
| "read_of _ = None"

fun write_of :: "event \<Rightarrow> (uint8_t list \<times> bnum_t \<times> uint) option" where
  "write_of (Ev_write_block buf block count r) = Some (buf, block, count)"
| "write_of _ = None"

fun message_of :: "event \<Rightarrow> message option" where
  "message_of (Ev_printf m) = Some m"
| "message_of _ = None"

text \<open>What the device answered to a call.\<close>

fun status_of :: "event \<Rightarrow> ssize_t option" where
  "status_of (Ev_erase offset len r) = Some r"
| "status_of (Ev_read_block block count n buf) = Some n"
| "status_of (Ev_write_block buf block count r) = Some r"
| "status_of (Ev_printf m) = None"

text \<open>The events between two states of a run, the earlier one first.\<close>

definition emitted :: "'s world \<Rightarrow> 's world \<Rightarrow> event list" where
  "emitted w w' = drop (length (trace w)) (trace w')"

text \<open>A write that the device answered with a negative status.\<close>

fun write_failed :: "event \<Rightarrow> bool" where
  "write_failed (Ev_write_block buf block count r) = (r <s 0)"
| "write_failed _ = False"

text \<open>
  What the device answered to a read validates against a pattern when the status is the
  block size, read as a non-negative number of bytes, and every byte of the block is the
  byte of the repeated pattern at its position.
\<close>

definition answer_valid :: "size_t \<Rightarrow> uint8_t list \<Rightarrow> ssize_t \<Rightarrow> (nat \<Rightarrow> uint8_t) \<Rightarrow> bool" where
  "answer_valid bsize pattern n buf \<longleftrightarrow>
     0 \<le> sint n \<and> sint n = uint bsize \<and>
     list_all (\<lambda>k. buf k = pattern ! (k mod length pattern)) [0..<unat bsize]"

text \<open>A read in the trace whose answer does not validate against the pattern of its block.\<close>

fun invalid_read :: "size_t \<Rightarrow> (bnum_t \<Rightarrow> uint8_t list) \<Rightarrow> event \<Rightarrow> bool" where
  "invalid_read bsize pattern_of (Ev_read_block block count n buf) =
     (\<not> answer_valid bsize (pattern_of block) n buf)"
| "invalid_read bsize pattern_of _ = False"

text \<open>The calls that a pass over all blocks of the device makes, in order.\<close>

definition all_blocks :: "'s bdev \<Rightarrow> bnum_t list" where
  "all_blocks device = map of_nat [0..<unat (block_count device)]"

subsection \<open>Devices to run the test on\<close>

text \<open>
  A device of four blocks of four bytes that keeps what is written to it and erases to
  zero; its state is the contents of the blocks.
\<close>

definition ramdisk :: "(bnum_t \<Rightarrow> nat \<Rightarrow> uint8_t) bdev" where
  "ramdisk =
     \<lparr>total_size = 16, block_size = 4, block_count = 4, erase_byte = 0,
      read_block = (\<lambda>s block count. ((4, s block), s)),
      write_block = (\<lambda>s buf block count.
         (4, s(block := (\<lambda>k. if k < length buf then buf ! k else s block k)))),
      erase = (\<lambda>s offset len. (len, (\<lambda>block k. 0)))\<rparr>"

text \<open>The same device, but block 2 reads back as \<open>0x01\<close> after an erase.\<close>

definition stuck_disk :: "(bnum_t \<Rightarrow> nat \<Rightarrow> uint8_t) bdev" where
  "stuck_disk = ramdisk\<lparr>erase := (\<lambda>s offset len. (len, (\<lambda>block k. if block = 2 then 1 else 0)))\<rparr>"

text \<open>The same device, but an erase stops after half of the bytes.\<close>

definition half_erase_disk :: "(bnum_t \<Rightarrow> nat \<Rightarrow> uint8_t) bdev" where
  "half_erase_disk = ramdisk\<lparr>erase := (\<lambda>s offset len. (len div 2, s))\<rparr>"

text \<open>The same device, but an erase is refused with status \<open>- 1\<close>.\<close>

definition no_erase_disk :: "(bnum_t \<Rightarrow> nat \<Rightarrow> uint8_t) bdev" where
  "no_erase_disk = ramdisk\<lparr>erase := (\<lambda>s offset len. (- 1, s))\<rparr>"


text \<open>The same device, but writes are accepted and dropped.\<close>

definition read_only_disk :: "(bnum_t \<Rightarrow> nat \<Rightarrow> uint8_t) bdev" where
  "read_only_disk = ramdisk\<lparr>write_block := (\<lambda>s buf block count. (4, s))\<rparr>"

text \<open>The same device, but a read of block 3 returns two bytes only.\<close>

definition short_read_disk :: "(bnum_t \<Rightarrow> nat \<Rightarrow> uint8_t) bdev" where
  "short_read_disk =
     ramdisk\<lparr>read_block := (\<lambda>s block count.
        if block = 3 then ((2, s block), s) else read_block ramdisk s block count)\<rparr>"


text \<open>The state before the test: every byte \<open>0xff\<close>, nothing has happened.\<close>

definition power_on :: "(bnum_t \<Rightarrow> nat \<Rightarrow> uint8_t) world" where
  "power_on = \<lparr>dstate = (\<lambda>block k. 255), trace = []\<rparr>"

section \<open>Properties\<close>

subsection \<open>Words, the comparison loop, and one block\<close>

lemma unat_succ: "unat (i + 1) = Suc (unat i)" if "i < n" for i n :: "'a::len word"
proof -
  from that have "i \<noteq> - 1"
    by (metis word_order.extremum_strict)
  then show ?thesis
    by (metis add.commute add_eq_0_iff2 unatSuc)
qed

lemma compare_from_iff:
  "pattern_length \<noteq> 0 \<Longrightarrow>
   compare_from bsize buf pattern pattern_length i \<longleftrightarrow>
     (\<forall>k. unat i \<le> k \<and> k < unat bsize \<longrightarrow> buf k = pattern ! (k mod unat pattern_length))"
proof (induction bsize buf pattern pattern_length i rule: compare_from.induct)
  case (1 bsize buf pattern pattern_length i)
  show ?case
  proof (cases "i < bsize")
    case True
    then have lt: "unat i < unat bsize"
      by (simp add: word_less_nat_alt)
    have suc: "unat (i + 1) = Suc (unat i)"
      using True by (rule unat_succ)
    have idx: "unat (i mod pattern_length) = unat i mod unat pattern_length"
      by (rule unat_mod)
    show ?thesis
    proof (cases "buf (unat i) = pattern ! (unat i mod unat pattern_length)")
      case same: True
      have "compare_from bsize buf pattern pattern_length i
              = compare_from bsize buf pattern pattern_length (i + 1)"
        using True same idx by (subst compare_from.simps) simp
      also have "\<dots> \<longleftrightarrow> (\<forall>k. Suc (unat i) \<le> k \<and> k < unat bsize
                     \<longrightarrow> buf k = pattern ! (k mod unat pattern_length))"
        using "1.IH" [OF True _ "1.prems"] same idx suc by simp
      also have "\<dots> \<longleftrightarrow> (\<forall>k. unat i \<le> k \<and> k < unat bsize
                     \<longrightarrow> buf k = pattern ! (k mod unat pattern_length))"
        using same by (metis Suc_leD Suc_leI le_neq_implies_less)
      finally show ?thesis .
    next
      case differ: False
      have "\<not> compare_from bsize buf pattern pattern_length i"
        using True differ idx by (subst compare_from.simps) simp
      moreover have "\<not> (\<forall>k. unat i \<le> k \<and> k < unat bsize
                     \<longrightarrow> buf k = pattern ! (k mod unat pattern_length))"
        using differ lt by blast
      ultimately show ?thesis by blast
    qed
  next
    case False
    then have "unat bsize \<le> unat i"
      by (simp add: word_less_nat_alt)
    moreover have "compare_from bsize buf pattern pattern_length i"
      using False by (subst compare_from.simps) simp
    ultimately show ?thesis by auto
  qed
qed

lemma sint_nonneg_uint: "0 \<le> sint w \<Longrightarrow> sint w = uint w" for w :: "'a::len word"
proof -
  assume nonneg: "0 \<le> sint w"
  have "sint w < 2 ^ (LENGTH('a) - 1)"
    by (rule sint_lt)
  also have "(2::int) ^ (LENGTH('a) - 1) \<le> 2 ^ LENGTH('a)"
    by (rule power_increasing) simp_all
  finally have "take_bit LENGTH('a) (sint w) = sint w"
    using nonneg by (simp add: take_bit_int_eq_self)
  then show ?thesis
    by (simp add: uint_sint)
qed

lemma status_is_block_size:
  "0 \<le> sint n \<and> sint n = uint bsize \<longleftrightarrow> \<not> n <s 0 \<and> n = bsize" for n bsize :: "64 word"
proof
  assume a: "0 \<le> sint n \<and> sint n = uint bsize"
  then have "sint n = uint n"
    by (intro sint_nonneg_uint) simp
  with a have "n = bsize"
    by (simp add: word_uint_eq_iff)
  moreover from a have "\<not> n <s 0"
    by (simp add: word_sless_alt)
  ultimately show "\<not> n <s 0 \<and> n = bsize" by simp
next
  assume "\<not> n <s 0 \<and> n = bsize"
  then have ns: "\<not> n <s 0" and eq: "n = bsize"
    by blast+
  from ns have nonneg: "0 \<le> sint n"
    by (simp add: word_sless_alt)
  then have "sint n = uint n"
    by (rule sint_nonneg_uint)
  with eq nonneg show "0 \<le> sint n \<and> sint n = uint bsize" by simp
qed

lemma sint_count: "k < 2 ^ 32 \<Longrightarrow> sint (of_nat k :: 64 word) = int k"
proof -
  assume "k < 2 ^ 32"
  then have "int k < 2 ^ 32"
    by (metis of_nat_less_iff of_nat_numeral of_nat_power)
  also have "(2::int) ^ 32 \<le> 2 ^ 63"
    by simp
  finally have "signed_take_bit 63 (int k) = int k"
    by (simp add: signed_take_bit_int_eq_self)
  then show ?thesis
    by (simp add: signed_of_nat)
qed

lemma answer_valid_iff:
  "answer_valid bsize pattern n buf \<longleftrightarrow>
     \<not> n <s 0 \<and> n = bsize \<and> (\<forall>k<unat bsize. buf k = pattern ! (k mod length pattern))"
proof -
  have "list_all (\<lambda>k. buf k = pattern ! (k mod length pattern)) [0..<unat bsize]
          \<longleftrightarrow> (\<forall>k<unat bsize. buf k = pattern ! (k mod length pattern))"
    by (auto simp: list_all_iff)
  with status_is_block_size [of n bsize] show ?thesis
    unfolding answer_valid_def by blast
qed

lemma is_valid_block_run:
  assumes "pattern_length \<noteq> 0" and "unat pattern_length = length pattern"
    and "read_block device (dstate w) block_num 1 = ((n, buf), s')"
  shows "is_valid_block device block_num pattern pattern_length w =
           (answer_valid (block_size device) pattern n buf,
            \<lparr>dstate = s', trace = trace w @ [Ev_read_block block_num 1 n buf]\<rparr>)"
proof -
  have "compare_from (block_size device) buf pattern pattern_length 0 \<longleftrightarrow>
          (\<forall>k<unat (block_size device). buf k = pattern ! (k mod length pattern))"
    using compare_from_iff [OF assms(1), of "block_size device" buf pattern 0] assms(2)
    by simp
  then show ?thesis
    using assms(3) by (auto simp: is_valid_block_def dev_read_block_def answer_valid_iff)
qed



lemma read_event_kind:
  assumes "read_of e = Some (b, c)"
  shows "write_of e = None" and "\<not> write_failed e" and "message_of e = None"
  using assms by (cases e; simp)+

lemma count_loop_run:
  fixes loop :: "bnum_t \<Rightarrow> size_t \<Rightarrow> 's world \<Rightarrow> size_t \<times> 's world"
  assumes unfold: "\<And>bnum c w. loop bnum c w =
     (if bnum < block_count d then
        (case is_valid_block d bnum [pat bnum] 1 w of
           (valid, w') \<Rightarrow> loop (bnum + 1) (if \<not> valid then c + 1 else c) w')
      else (c, w))"
    and run: "loop bnum c w = (r, w')"
  shows "\<exists>evs. trace w' = trace w @ evs \<and>
           map read_of evs = map (\<lambda>i. Some (of_nat i, 1)) [unat bnum..<unat (block_count d)] \<and>
           r = c + of_nat (length (filter (invalid_read (block_size d) (\<lambda>b. [pat b])) evs))"
  using run
proof (induction "unat (block_count d) - unat bnum" arbitrary: bnum c w)
  case 0
  then have "\<not> bnum < block_count d"
    by (simp add: word_less_nat_alt)
  with "0.prems" have "r = c" and "w' = w"
    by (simp_all add: unfold [of bnum c w])
  with 0 show ?case by simp
next
  case (Suc m)
  then have lt: "bnum < block_count d"
    by (simp add: word_less_nat_alt)
  then have suc: "unat (bnum + 1) = Suc (unat bnum)"
    by (rule unat_succ)
  obtain n buf s' where rd: "read_block d (dstate w) bnum 1 = ((n, buf), s')"
    by (metis surj_pair)
  define e where "e = Ev_read_block bnum 1 n buf"
  define w1 where "w1 = \<lparr>dstate = s', trace = trace w @ [e]\<rparr>"
  define valid where "valid = answer_valid (block_size d) [pat bnum] n buf"
  have "is_valid_block d bnum [pat bnum] 1 w = (valid, w1)"
    using is_valid_block_run [OF _ _ rd, of 1 "[pat bnum]"]
    by (simp add: valid_def w1_def e_def)
  with lt Suc.prems have rest: "loop (bnum + 1) (if \<not> valid then c + 1 else c) w1 = (r, w')"
    by (simp add: unfold [of bnum c w])
  have "m = unat (block_count d) - unat (bnum + 1)"
    using Suc.hyps(2) suc by simp
  from Suc.hyps(1) [OF this rest] obtain evs where
    tr: "trace w' = trace w1 @ evs" and
    rds: "map read_of evs = map (\<lambda>i. Some (of_nat i, 1)) [unat (bnum + 1)..<unat (block_count d)]" and
    cnt: "r = (if \<not> valid then c + 1 else c)
             + of_nat (length (filter (invalid_read (block_size d) (\<lambda>b. [pat b])) evs))"
    by blast
  have "unat bnum < unat (block_count d)"
    using lt by (simp add: word_less_nat_alt)
  then have "[unat bnum..<unat (block_count d)] = unat bnum # [unat (bnum + 1)..<unat (block_count d)]"
    by (simp add: upt_conv_Cons suc)
  with rds have "map read_of (e # evs)
      = map (\<lambda>i. Some (of_nat i, 1)) [unat bnum..<unat (block_count d)]"
    by (simp add: e_def)
  moreover have "trace w' = trace w @ (e # evs)"
    using tr by (simp add: w1_def)
  moreover have "r = c + of_nat (length (filter (invalid_read (block_size d) (\<lambda>b. [pat b])) (e # evs)))"
    using cnt by (simp add: e_def valid_def)
  ultimately show ?case by blast
qed

lemma erase_test_loop_run:
  assumes "erase_test_loop d bnum c w = (r, w')"
  shows "\<exists>evs. trace w' = trace w @ evs \<and>
           map read_of evs = map (\<lambda>i. Some (of_nat i, 1)) [unat bnum..<unat (block_count d)] \<and>
           r = c + of_nat (length (filter (invalid_read (block_size d) (\<lambda>b. [erase_byte d])) evs))"
  using count_loop_run [of "erase_test_loop d" d "\<lambda>b. erase_byte d", OF _ assms]
    erase_test_loop.simps [of d]
  by blast

lemma write_test_verify_run:
  assumes "write_test_verify d bnum c w = (r, w')"
  shows "\<exists>evs. trace w' = trace w @ evs \<and>
           map read_of evs = map (\<lambda>i. Some (of_nat i, 1)) [unat bnum..<unat (block_count d)] \<and>
           r = c + of_nat (length (filter (invalid_read (block_size d) (\<lambda>b. [get_signature b])) evs))"
  using count_loop_run [of "write_test_verify d" d get_signature, OF _ assms]
    write_test_verify.simps [of d]
  by blast


lemma bio_write_block_run:
  assumes "write_block d (dstate w) buf bnum c = (err, s')"
  shows "bio_write_block d buf bnum c w =
           (err, \<lparr>dstate = s', trace = trace w @ [Ev_write_block buf bnum c err]\<rparr>)"
  using assms by (simp add: bio_write_block_def)

lemma write_test_fill_run:
  assumes "write_test_fill d bnum w = (r, w')"
  shows "\<exists>evs. trace w' = trace w @ evs \<and>
           map write_of evs =
             map (\<lambda>i. Some (replicate (unat (block_size d)) (get_signature (of_nat i)), of_nat i, 1))
               [unat bnum..<unat bnum + length evs] \<and>
           length evs \<le> unat (block_count d) - unat bnum \<and>
           (case r of
              None \<Rightarrow> length evs = unat (block_count d) - unat bnum \<and>
                        (\<forall>e\<in>set evs. \<not> write_failed e)
            | Some err \<Rightarrow> err <s 0 \<and> evs \<noteq> [] \<and> (\<forall>e\<in>set (butlast evs). \<not> write_failed e) \<and>
                        write_failed (last evs) \<and> status_of (last evs) = Some err)"
  using assms
proof (induction "unat (block_count d) - unat bnum" arbitrary: bnum w)
  case 0
  then have "\<not> bnum < block_count d"
    by (simp add: word_less_nat_alt)
  with "0.prems" have "r = None" and "w' = w"
    by (simp_all add: write_test_fill.simps [of d bnum w])
  with 0 show ?case by simp
next
  case (Suc m)
  then have lt: "bnum < block_count d"
    by (simp add: word_less_nat_alt)
  then have suc: "unat (bnum + 1) = Suc (unat bnum)"
    by (rule unat_succ)
  define buf where "buf = replicate (unat (block_size d)) (get_signature bnum)"
  obtain err s' where wr: "write_block d (dstate w) buf bnum 1 = (err, s')"
    by (metis surj_pair)
  define e where "e = Ev_write_block buf bnum 1 err"
  define w1 where "w1 = \<lparr>dstate = s', trace = trace w @ [e]\<rparr>"
  have call: "bio_write_block d buf bnum 1 w = (err, w1)"
    using bio_write_block_run [OF wr] by (simp add: w1_def e_def)
  have wof: "write_of e =
      Some (replicate (unat (block_size d)) (get_signature (of_nat (unat bnum))), of_nat (unat bnum), 1)"
    by (simp add: e_def buf_def)
  show ?case
  proof (cases "err <s 0")
    case True
    with lt call Suc.prems have "r = Some err" and "w' = w1"
      by (simp_all add: write_test_fill.simps [of d bnum w] buf_def)
    moreover have "trace w1 = trace w @ [e]"
      by (simp add: w1_def)
    moreover have "write_failed e" and "status_of e = Some err"
      using True by (simp_all add: e_def)
    moreover have "length [e] \<le> unat (block_count d) - unat bnum"
      using Suc.hyps(2) by simp
    ultimately show ?thesis
      using wof True by (intro exI [of _ "[e]"]) simp
  next
    case False
    with lt call Suc.prems have rest: "write_test_fill d (bnum + 1) w1 = (r, w')"
      by (simp add: write_test_fill.simps [of d bnum w] buf_def)
    have m: "m = unat (block_count d) - unat (bnum + 1)"
      using Suc.hyps(2) suc by simp
    from Suc.hyps(1) [OF m rest] obtain evs where
      tr: "trace w' = trace w1 @ evs" and
      wrs: "map write_of evs =
             map (\<lambda>i. Some (replicate (unat (block_size d)) (get_signature (of_nat i)), of_nat i, 1))
               [unat (bnum + 1)..<unat (bnum + 1) + length evs]" and
      len: "length evs \<le> unat (block_count d) - unat (bnum + 1)" and
      res: "(case r of
              None \<Rightarrow> length evs = unat (block_count d) - unat (bnum + 1) \<and>
                        (\<forall>e\<in>set evs. \<not> write_failed e)
            | Some err \<Rightarrow> err <s 0 \<and> evs \<noteq> [] \<and> (\<forall>e\<in>set (butlast evs). \<not> write_failed e) \<and>
                        write_failed (last evs) \<and> status_of (last evs) = Some err)"
      by blast
    have ok: "\<not> write_failed e"
      using False by (simp add: e_def)
    have "trace w' = trace w @ (e # evs)"
      using tr by (simp add: w1_def)
    moreover have "[unat bnum..<unat bnum + Suc (length evs)]
        = unat bnum # [Suc (unat bnum)..<unat bnum + Suc (length evs)]"
      by (rule upt_conv_Cons) simp
    then have "[unat bnum..<unat bnum + length (e # evs)]
        = unat bnum # [unat (bnum + 1)..<unat (bnum + 1) + length evs]"
      by (simp add: suc)
    with wrs wof have "map write_of (e # evs) =
             map (\<lambda>i. Some (replicate (unat (block_size d)) (get_signature (of_nat i)), of_nat i, 1))
               [unat bnum..<unat bnum + length (e # evs)]"
      by simp
    moreover have "length (e # evs) \<le> unat (block_count d) - unat bnum"
      using len Suc.hyps(2) suc by simp
    moreover have "(case r of
              None \<Rightarrow> length (e # evs) = unat (block_count d) - unat bnum \<and>
                        (\<forall>x\<in>set (e # evs). \<not> write_failed x)
            | Some err \<Rightarrow> err <s 0 \<and> e # evs \<noteq> [] \<and>
                        (\<forall>x\<in>set (butlast (e # evs)). \<not> write_failed x) \<and>
                        write_failed (last (e # evs)) \<and> status_of (last (e # evs)) = Some err)"
      using res ok Suc.hyps(2) suc by (cases r) auto
    ultimately show ?thesis by blast
  qed
qed

subsection \<open>The events of a phase\<close>

lemma emitted_append: "trace w' = trace w @ evs \<Longrightarrow> emitted w w' = evs"
  by (simp add: emitted_def)

lemma write_event_kind:
  assumes "write_of e = Some x"
  shows "read_of e = None" and "message_of e = None" and "\<not> invalid_read bsize pat e"
  using assms by (cases e; simp)+

lemma map_filter_all_Some:
  assumes "map f xs = map (\<lambda>y. Some (g y)) ys"
  shows "List.map_filter f xs = map g ys"
proof -
  have "map (the \<circ> f) xs = map (the \<circ> (\<lambda>y. Some (g y))) ys"
    using assms by (metis map_map)
  moreover have "\<forall>x\<in>set xs. f x \<noteq> None"
  proof
    fix x assume "x \<in> set xs"
    then have "f x \<in> set (map f xs)" by simp
    then show "f x \<noteq> None" unfolding assms by auto
  qed
  then have "filter (\<lambda>x. f x \<noteq> None) xs = xs"
    by simp
  ultimately show ?thesis
    by (simp add: List.map_filter_def comp_def)
qed

lemma map_filter_all_None:
  assumes "\<forall>x\<in>set xs. f x = None"
  shows "List.map_filter f xs = []"
  using assms by (simp add: List.map_filter_def)

lemma all_of_map_Some:
  assumes "map f xs = map (\<lambda>y. Some (g y)) ys" and "x \<in> set xs"
  shows "\<exists>y. f x = Some (g y)"
proof -
  from assms(2) have "f x \<in> set (map f xs)" by simp
  then show ?thesis unfolding assms(1) by auto
qed

lemma all_blocks_reads:
  "map (\<lambda>i. Some (of_nat i, 1 :: uint)) [0..<unat (block_count d)]
     = map (\<lambda>b. Some (b, 1)) (all_blocks d)"
  by (simp add: all_blocks_def comp_def)

lemma length_reads:
  fixes d :: "'s bdev"
  assumes "map read_of evs = map (\<lambda>b. Some (b, 1)) (all_blocks d)"
  shows "length evs = unat (block_count d)"
proof -
  have "length (map read_of evs) = length (all_blocks d)"
    unfolding assms by simp
  then show ?thesis by (simp add: all_blocks_def)
qed

lemma filter_reads_bound:
  fixes d :: "'s bdev"
  assumes "map read_of evs = map (\<lambda>b. Some (b, 1)) (all_blocks d)"
  shows "length (filter P evs) \<le> unat (block_count d)" and "length (filter P evs) < 2 ^ 32"
proof -
  show le: "length (filter P evs) \<le> unat (block_count d)"
    using length_reads [OF assms] length_filter_le [of P evs] by simp
  have "unat (block_count d) < 2 ^ 32"
    using unsigned_less [of "block_count d"] by simp
  with le show "length (filter P evs) < 2 ^ 32" by simp
qed

lemma erase_test_cases:
  assumes er: "erase d (dstate w) 0 (total_size d) = (err, s')"
  defines "w1 \<equiv> \<lparr>dstate = s',
      trace = trace w @ [Ev_printf Erasing_device, Ev_erase 0 (total_size d) err]\<rparr>"
  shows "err <s 0 \<Longrightarrow> erase_test ERR_IO d w = (err, w1)"
    and "\<not> err <s 0 \<Longrightarrow> err \<noteq> total_size d \<Longrightarrow> erase_test ERR_IO d w = (ERR_IO, w1)"
    and "\<not> err <s 0 \<Longrightarrow> err = total_size d \<Longrightarrow>
           erase_test ERR_IO d w = erase_test_loop d 0 0 (printf Validating_erase w1)"
  by (simp_all add: erase_test_def bio_erase_def printf_def er w1_def)

lemma erase_test_ok_run:
  assumes er: "erase d (dstate w) 0 (total_size d) = (err, s')"
    and ok: "\<not> err <s 0" "err = total_size d"
  shows "\<exists>reads.
           emitted w (snd (erase_test ERR_IO d w)) =
             [Ev_printf Erasing_device, Ev_erase 0 (total_size d) err,
              Ev_printf Validating_erase] @ reads \<and>
           map read_of reads = map (\<lambda>b. Some (b, 1)) (all_blocks d) \<and>
           fst (erase_test ERR_IO d w) =
             of_nat (length (filter (invalid_read (block_size d) (\<lambda>b. [erase_byte d])) reads))"
proof -
  define w1 where "w1 = \<lparr>dstate = s',
      trace = trace w @ [Ev_printf Erasing_device, Ev_erase 0 (total_size d) err]\<rparr>"
  obtain r w' where loop: "erase_test_loop d 0 0 (printf Validating_erase w1) = (r, w')"
    by (metis surj_pair)
  then have res: "erase_test ERR_IO d w = (r, w')"
    using erase_test_cases(3) [OF er ok] by (simp add: w1_def)
  from erase_test_loop_run [OF loop] obtain reads where
    tr: "trace w' = trace (printf Validating_erase w1) @ reads" and
    rds: "map read_of reads = map (\<lambda>i. Some (of_nat i, 1)) [unat (0 :: bnum_t)..<unat (block_count d)]" and
    cnt: "r = 0 + of_nat (length (filter (invalid_read (block_size d) (\<lambda>b. [erase_byte d])) reads))"
    by blast
  have "trace w' = trace w @ ([Ev_printf Erasing_device, Ev_erase 0 (total_size d) err,
              Ev_printf Validating_erase] @ reads)"
    using tr by (simp add: printf_def w1_def)
  then have "emitted w w' = [Ev_printf Erasing_device, Ev_erase 0 (total_size d) err,
              Ev_printf Validating_erase] @ reads"
    by (rule emitted_append)
  moreover have "map read_of reads = map (\<lambda>b. Some (b, 1)) (all_blocks d)"
    using rds all_blocks_reads [of d] by simp
  ultimately show ?thesis
    using cnt res by simp
qed

lemma erase_test_fail_run:
  assumes er: "erase d (dstate w) 0 (total_size d) = (err, s')"
    and bad: "err <s 0 \<or> err \<noteq> total_size d"
  shows "emitted w (snd (erase_test ERR_IO d w)) =
           [Ev_printf Erasing_device, Ev_erase 0 (total_size d) err]"
    and "fst (erase_test ERR_IO d w) = (if err <s 0 then err else ERR_IO)"
proof -
  define w1 where "w1 = \<lparr>dstate = s',
      trace = trace w @ [Ev_printf Erasing_device, Ev_erase 0 (total_size d) err]\<rparr>"
  have res: "erase_test ERR_IO d w = ((if err <s 0 then err else ERR_IO), w1)"
    using erase_test_cases(1,2) [OF er, of ERR_IO] bad by (auto simp: w1_def)
  have "trace w1 = trace w @ [Ev_printf Erasing_device, Ev_erase 0 (total_size d) err]"
    by (simp add: w1_def)
  then have "emitted w w1 = [Ev_printf Erasing_device, Ev_erase 0 (total_size d) err]"
    by (rule emitted_append)
  with res show "emitted w (snd (erase_test ERR_IO d w)) =
           [Ev_printf Erasing_device, Ev_erase 0 (total_size d) err]"
    by simp
  from res show "fst (erase_test ERR_IO d w) = (if err <s 0 then err else ERR_IO)"
    by simp
qed

lemma write_test_run:
  fixes d :: "'s bdev"
  defines "wr \<equiv> \<lambda>b. (replicate (unat (block_size d)) (get_signature b), b, 1 :: uint)"
  shows "\<exists>ws rs.
           emitted w (snd (write_test d w)) = ws @ rs \<and>
           map write_of ws = map (\<lambda>b. Some (wr b)) (take (length ws) (all_blocks d)) \<and>
           length ws \<le> unat (block_count d) \<and>
           (fst (write_test d w) <s 0 \<and> rs = [] \<and> ws \<noteq> [] \<and>
              (\<forall>e\<in>set (butlast ws). \<not> write_failed e) \<and> write_failed (last ws) \<and>
              status_of (last ws) = Some (fst (write_test d w))
            \<or>
            length ws = unat (block_count d) \<and> (\<forall>e\<in>set ws. \<not> write_failed e) \<and>
              map read_of rs = map (\<lambda>b. Some (b, 1)) (all_blocks d) \<and>
              fst (write_test d w) =
                of_nat (length (filter (invalid_read (block_size d) (\<lambda>b. [get_signature b])) rs)))"
proof -
  obtain r w1 where fill: "write_test_fill d 0 w = (r, w1)"
    by (metis surj_pair)
  from write_test_fill_run [OF fill] obtain ws where
    tr: "trace w1 = trace w @ ws" and
    wrs: "map write_of ws =
             map (\<lambda>i. Some (replicate (unat (block_size d)) (get_signature (of_nat i)), of_nat i, 1))
               [unat (0 :: bnum_t)..<unat (0 :: bnum_t) + length ws]" and
    len: "length ws \<le> unat (block_count d) - unat (0 :: bnum_t)" and
    res: "(case r of
              None \<Rightarrow> length ws = unat (block_count d) - unat (0 :: bnum_t) \<and>
                        (\<forall>e\<in>set ws. \<not> write_failed e)
            | Some err \<Rightarrow> err <s 0 \<and> ws \<noteq> [] \<and> (\<forall>e\<in>set (butlast ws). \<not> write_failed e) \<and>
                        write_failed (last ws) \<and> status_of (last ws) = Some err)"
    by blast
  have len': "length ws \<le> unat (block_count d)"
    using len by simp
  have "take (length ws) (all_blocks d) = map of_nat [0..<length ws]"
    using len' by (simp add: all_blocks_def take_map min_def)
  then have wrs': "map write_of ws = map (\<lambda>b. Some (wr b)) (take (length ws) (all_blocks d))"
    using wrs by (simp add: wr_def comp_def)
  show ?thesis
  proof (cases r)
    case (Some err)
    with fill have out: "write_test d w = (err, w1)"
      by (simp add: write_test_def)
    have "emitted w w1 = ws @ []"
      using tr by (simp add: emitted_append)
    with out wrs' len' res Some show ?thesis
      by (intro exI [of _ ws] exI [of _ "[]"]) simp
  next
    case None
    obtain c w2 where verify: "write_test_verify d 0 0 w1 = (c, w2)"
      by (metis surj_pair)
    with fill None have out: "write_test d w = (c, w2)"
      by (simp add: write_test_def)
    from write_test_verify_run [OF verify] obtain rs where
      tr2: "trace w2 = trace w1 @ rs" and
      rds: "map read_of rs = map (\<lambda>i. Some (of_nat i, 1)) [unat (0 :: bnum_t)..<unat (block_count d)]" and
      cnt: "c = 0 + of_nat (length (filter (invalid_read (block_size d) (\<lambda>b. [get_signature b])) rs))"
      by blast
    have "trace w2 = trace w @ (ws @ rs)"
      using tr tr2 by simp
    then have "emitted w w2 = ws @ rs"
      by (rule emitted_append)
    moreover have "map read_of rs = map (\<lambda>b. Some (b, 1)) (all_blocks d)"
      using rds all_blocks_reads [of d] by simp
    ultimately show ?thesis
      using out wrs' len' res None cnt
      by (intro exI [of _ ws] exI [of _ rs]) simp
  qed
qed

lemma erase_test_trace:
  "\<exists>evs. trace (snd (erase_test ERR_IO d w)) = trace w @ evs \<and> (\<forall>e\<in>set evs. write_of e = None)"
proof -
  obtain err s' where er: "erase d (dstate w) 0 (total_size d) = (err, s')"
    by (metis surj_pair)
  show ?thesis
  proof (cases "err <s 0 \<or> err \<noteq> total_size d")
    case True
    have "emitted w (snd (erase_test ERR_IO d w)) =
           [Ev_printf Erasing_device, Ev_erase 0 (total_size d) err]"
      using er True by (rule erase_test_fail_run)
    moreover have "\<exists>w1. erase_test ERR_IO d w = (
        (if err <s 0 then err else ERR_IO), w1) \<and>
        trace w1 = trace w @ [Ev_printf Erasing_device, Ev_erase 0 (total_size d) err]"
      using erase_test_cases(1,2) [OF er, of ERR_IO] True by auto
    ultimately show ?thesis by auto
  next
    case False
    then have ok: "\<not> err <s 0" "err = total_size d" by blast+
    define w1 where "w1 = \<lparr>dstate = s',
      trace = trace w @ [Ev_printf Erasing_device, Ev_erase 0 (total_size d) err]\<rparr>"
    obtain r w' where loop: "erase_test_loop d 0 0 (printf Validating_erase w1) = (r, w')"
      by (metis surj_pair)
    then have res: "erase_test ERR_IO d w = (r, w')"
      using erase_test_cases(3) [OF er ok] by (simp add: w1_def)
    from erase_test_loop_run [OF loop] obtain reads where
      tr: "trace w' = trace (printf Validating_erase w1) @ reads" and
      rds: "map read_of reads =
              map (\<lambda>i. Some (of_nat i, 1)) [unat (0 :: bnum_t)..<unat (block_count d)]"
      by blast
    have "\<forall>e\<in>set reads. write_of e = None"
      using all_of_map_Some [OF rds] read_event_kind(1) by (metis prod.collapse)
    moreover have "trace w' = trace w @ ([Ev_printf Erasing_device,
        Ev_erase 0 (total_size d) err, Ev_printf Validating_erase] @ reads)"
      using tr by (simp add: printf_def w1_def)
    ultimately show ?thesis
      using res by (intro exI [of _ "[Ev_printf Erasing_device,
        Ev_erase 0 (total_size d) err, Ev_printf Validating_erase] @ reads"]) simp
  qed
qed

lemma sint_count_of_reads:
  fixes d :: "'s bdev"
  assumes "map read_of rs = map (\<lambda>b. Some (b, 1)) (all_blocks d)"
  shows "sint (of_nat (length (filter P rs)) :: 64 word) = int (length (filter P rs))"
    and "int (length (filter P rs)) \<le> uint (block_count d)"
proof -
  show "sint (of_nat (length (filter P rs)) :: 64 word) = int (length (filter P rs))"
    using filter_reads_bound(2) [OF assms] by (rule sint_count)
  have "length (filter P rs) \<le> unat (block_count d)"
    by (rule filter_reads_bound(1) [OF assms])
  then show "int (length (filter P rs)) \<le> uint (block_count d)"
    by (metis of_nat_le_iff uint_nat)
qed

lemma write_test_ok_run:
  fixes d :: "'s bdev"
  assumes "\<forall>e\<in>set (emitted w (snd (write_test d w))). \<not> write_failed e"
  shows "\<exists>ws rs.
           emitted w (snd (write_test d w)) = ws @ rs \<and>
           map write_of ws =
             map (\<lambda>b. Some (replicate (unat (block_size d)) (get_signature b), b, 1))
               (all_blocks d) \<and>
           map read_of rs = map (\<lambda>b. Some (b, 1)) (all_blocks d) \<and>
           fst (write_test d w) =
             of_nat (length (filter (invalid_read (block_size d) (\<lambda>b. [get_signature b])) rs))"
proof -
  let ?wr = "\<lambda>b. (replicate (unat (block_size d)) (get_signature b), b, 1 :: uint)"
  let ?bad = "invalid_read (block_size d) (\<lambda>b. [get_signature b])"
  from write_test_run [of w d] obtain ws rs where
    evs: "emitted w (snd (write_test d w)) = ws @ rs" and
    wrs: "map write_of ws = map (\<lambda>b. Some (?wr b)) (take (length ws) (all_blocks d))" and
    alt: "fst (write_test d w) <s 0 \<and> rs = [] \<and> ws \<noteq> [] \<and>
              (\<forall>e\<in>set (butlast ws). \<not> write_failed e) \<and> write_failed (last ws) \<and>
              status_of (last ws) = Some (fst (write_test d w))
            \<or>
            length ws = unat (block_count d) \<and> (\<forall>e\<in>set ws. \<not> write_failed e) \<and>
              map read_of rs = map (\<lambda>b. Some (b, 1)) (all_blocks d) \<and>
              fst (write_test d w) = of_nat (length (filter ?bad rs))"
    by blast
  have "\<not> (ws \<noteq> [] \<and> write_failed (last ws))"
  proof
    assume "ws \<noteq> [] \<and> write_failed (last ws)"
    then have "last ws \<in> set (ws @ rs)" and "write_failed (last ws)"
      by simp_all
    with assms show False
      unfolding evs by blast
  qed
  with alt have len: "length ws = unat (block_count d)" and
    rds: "map read_of rs = map (\<lambda>b. Some (b, 1)) (all_blocks d)" and
    cnt: "fst (write_test d w) = of_nat (length (filter ?bad rs))"
    by blast+
  have "length (all_blocks d) = unat (block_count d)"
    by (simp add: all_blocks_def)
  with wrs len have "map write_of ws = map (\<lambda>b. Some (?wr b)) (all_blocks d)"
    by simp
  with evs rds cnt show ?thesis by blast
qed

section \<open>The claims\<close>

text \<open>
  C8.  The signature is not injective: two different 32-bit block indices have the same
  signature.  The indices \<open>0\<close> and \<open>257\<close> (bytes \<open>01 01 00 00\<close>) both fold to \<open>0\<close>.
\<close>

theorem get_signature_not_injective:
  "\<exists>a b. a \<noteq> b \<and> get_signature a = get_signature b"
proof -
  have "(0 :: 32 word) \<noteq> 257" by simp
  moreover have "get_signature 0 = get_signature 257"
    by (simp add: get_signature_def sigptr_def)
  ultimately show ?thesis by blast
qed

text \<open>
  C4.  For a non-empty pattern whose length is \<open>pattern_length\<close>, let the device answer
  the read of the block with status \<open>n\<close> and buffer \<open>buf\<close>.  If \<open>n\<close> is the block
  size (the read succeeded with exactly \<open>block_size\<close> bytes), \<open>is_valid_block\<close> returns
  true exactly when every byte \<open>k\<close> of the block is \<open>pattern[k mod length]\<close>, which for a
  pattern of one byte means that every byte of the block is that byte.  If \<open>n\<close> is
  negative or less than the block size, it returns false.
\<close>

theorem is_valid_block_checks_pattern:
  assumes "pattern \<noteq> []" and "unat pattern_length = length pattern"
    and "read_block d (dstate w) block_num 1 = ((n, buf), s')"
  shows "(0 \<le> sint n \<and> sint n = uint (block_size d) \<longrightarrow>
            (fst (is_valid_block d block_num pattern pattern_length w) \<longleftrightarrow>
               (\<forall>k<unat (block_size d). buf k = pattern ! (k mod length pattern)))) \<and>
         (sint n < 0 \<or> sint n < uint (block_size d) \<longrightarrow>
            \<not> fst (is_valid_block d block_num pattern pattern_length w)) \<and>
         (\<forall>x. pattern = [x] \<longrightarrow> 0 \<le> sint n \<and> sint n = uint (block_size d) \<longrightarrow>
            (fst (is_valid_block d block_num pattern pattern_length w) \<longleftrightarrow>
               (\<forall>k<unat (block_size d). buf k = x)))"
proof -
  from assms(1,2) have nz: "pattern_length \<noteq> 0"
    by (metis length_0_conv unat_eq_zero)
  have run: "fst (is_valid_block d block_num pattern pattern_length w)
               = answer_valid (block_size d) pattern n buf"
    using is_valid_block_run [OF nz assms(2,3)] by simp
  have full: "answer_valid (block_size d) pattern n buf \<longleftrightarrow>
      (\<forall>k<unat (block_size d). buf k = pattern ! (k mod length pattern))"
    if "0 \<le> sint n \<and> sint n = uint (block_size d)"
  proof -
    from that have "\<not> n <s 0 \<and> n = block_size d"
      using status_is_block_size [of n "block_size d"] by blast
    then show ?thesis
      unfolding answer_valid_iff by blast
  qed
  have short: "\<not> answer_valid (block_size d) pattern n buf"
    if "sint n < 0 \<or> sint n < uint (block_size d)"
    using that by (auto simp: answer_valid_def)
  show ?thesis
    using run full short by auto
qed

text \<open>
  On the four-block device a block full of \<open>0xff\<close> validates against the pattern
  \<open>[0xff]\<close>; on the device whose read of block 3 is short it does not.
\<close>

theorem is_valid_block_checks_pattern_witness:
  "fst (is_valid_block ramdisk 2 [255] 1 power_on) \<and>
   \<not> fst (is_valid_block short_read_disk 3 [255] 1 power_on)"
proof -
  have r1: "read_block ramdisk (dstate power_on) 2 1 = ((4, \<lambda>k. 255), dstate power_on)"
    by (simp add: ramdisk_def power_on_def)
  have r2: "read_block short_read_disk (dstate power_on) 3 1 = ((2, \<lambda>k. 255), dstate power_on)"
    by (simp add: short_read_disk_def ramdisk_def power_on_def)
  have b1: "block_size ramdisk = 4" and b2: "block_size short_read_disk = 4"
    by (simp_all add: short_read_disk_def ramdisk_def)
  have "fst (is_valid_block ramdisk 2 [255] 1 power_on)"
    using is_valid_block_checks_pattern [OF _ _ r1, of "[255]" 1] by (simp add: b1)
  moreover have "\<not> fst (is_valid_block short_read_disk 3 [255] 1 power_on)"
    using is_valid_block_checks_pattern [OF _ _ r2, of "[255]" 1] by (simp add: b2)
  ultimately show ?thesis by simp
qed

text \<open>
  C2.  Let \<^verbatim>\<open>ERR_IO\<close> be negative, and let the device answer the erase of the whole
  device with \<open>err\<close>.  If \<open>err\<close> is negative, or is not \<open>total_size\<close>, then
  \<open>erase_test\<close> returns a negative value (\<open>err\<close> itself in the first case,
  \<^verbatim>\<open>ERR_IO\<close> in the second), and all it has done is to print one line and to call the
  erase once: no block is read.
\<close>

theorem erase_test_propagates_erase_failure:
  assumes "ERR_IO <s 0"
    and "erase d (dstate w) 0 (total_size d) = (err, s')"
    and "err <s 0 \<or> err \<noteq> total_size d"
  shows "fst (erase_test ERR_IO d w) <s 0 \<and>
         fst (erase_test ERR_IO d w) = (if err <s 0 then err else ERR_IO) \<and>
         emitted w (snd (erase_test ERR_IO d w)) =
           [Ev_printf Erasing_device, Ev_erase 0 (total_size d) err] \<and>
         List.map_filter read_of (emitted w (snd (erase_test ERR_IO d w))) = []"
proof -
  have evs: "emitted w (snd (erase_test ERR_IO d w)) =
           [Ev_printf Erasing_device, Ev_erase 0 (total_size d) err]"
    using assms(2,3) by (rule erase_test_fail_run(1))
  have res: "fst (erase_test ERR_IO d w) = (if err <s 0 then err else ERR_IO)"
    using assms(2,3) by (rule erase_test_fail_run(2))
  have "fst (erase_test ERR_IO d w) <s 0"
    using res assms(1) by simp
  moreover have "List.map_filter read_of (emitted w (snd (erase_test ERR_IO d w))) = []"
    unfolding evs by (simp add: List.map_filter_def)
  ultimately show ?thesis
    using evs res by simp
qed

text \<open>
  With \<^verbatim>\<open>ERR_IO\<close> = \<open>- 20\<close>: the device that erases 8 of its 16 bytes gives \<open>- 20\<close>,
  the device that refuses the erase with \<open>- 1\<close> gives \<open>- 1\<close>.
\<close>

theorem erase_test_propagates_erase_failure_witness:
  "fst (erase_test (- 20) half_erase_disk power_on) = - 20 \<and>
   emitted power_on (snd (erase_test (- 20) half_erase_disk power_on)) =
     [Ev_printf Erasing_device, Ev_erase 0 16 8] \<and>
   fst (erase_test (- 20) no_erase_disk power_on) = - 1 \<and>
   emitted power_on (snd (erase_test (- 20) no_erase_disk power_on)) =
     [Ev_printf Erasing_device, Ev_erase 0 16 (- 1)]"
proof -
  have neg: "(- 20 :: ssize_t) <s 0"
    by (simp add: word_sless_alt)
  have e1: "erase half_erase_disk (dstate power_on) 0 (total_size half_erase_disk)
              = (8, dstate power_on)"
    by (simp add: half_erase_disk_def ramdisk_def)
  have e2: "erase no_erase_disk (dstate power_on) 0 (total_size no_erase_disk)
              = (- 1, dstate power_on)"
    by (simp add: no_erase_disk_def ramdisk_def)
  have t: "total_size half_erase_disk = 16" "total_size no_erase_disk = 16"
    by (simp_all add: half_erase_disk_def no_erase_disk_def ramdisk_def)
  have "(8 :: ssize_t) <s 0 \<or> 8 \<noteq> total_size half_erase_disk"
    by (simp add: t)
  from erase_test_propagates_erase_failure [OF neg e1 this]
  have a: "fst (erase_test (- 20) half_erase_disk power_on) = - 20 \<and>
     emitted power_on (snd (erase_test (- 20) half_erase_disk power_on)) =
       [Ev_printf Erasing_device, Ev_erase 0 16 8]"
    by (simp add: t word_sless_alt)
  have "(- 1 :: ssize_t) <s 0 \<or> - 1 \<noteq> total_size no_erase_disk"
    by (simp add: word_sless_alt)
  from erase_test_propagates_erase_failure [OF neg e2 this]
  have b: "fst (erase_test (- 20) no_erase_disk power_on) = - 1 \<and>
     emitted power_on (snd (erase_test (- 20) no_erase_disk power_on)) =
       [Ev_printf Erasing_device, Ev_erase 0 16 (- 1)]"
    by (simp add: t word_sless_alt)
  from a b show ?thesis by simp
qed

text \<open>
  C3.  Let the device answer the erase of the whole device with \<open>total_size\<close>, read as
  a non-negative number.  Then \<open>erase_test\<close> reads every block of the device once, in
  the order of the block numbers, one block per read, whatever the reads return; and the
  value it returns is the number of those reads whose answer does not validate against the
  one-byte pattern \<open>[erase_byte]\<close>: \<open>k\<close> when \<open>k\<close> blocks fail, \<open>0\<close> when none
  does.
\<close>

theorem erase_test_counts_failed_blocks:
  assumes "erase d (dstate w) 0 (total_size d) = (err, s')"
    and "\<not> err <s 0" and "err = total_size d"
  shows "List.map_filter read_of (emitted w (snd (erase_test ERR_IO d w)))
           = map (\<lambda>b. (b, 1)) (all_blocks d) \<and>
         sint (fst (erase_test ERR_IO d w)) =
           int (length (filter (invalid_read (block_size d) (\<lambda>b. [erase_byte d]))
                  (emitted w (snd (erase_test ERR_IO d w)))))"
proof -
  from erase_test_ok_run [OF assms, of ERR_IO] obtain reads where
    evs: "emitted w (snd (erase_test ERR_IO d w)) =
             [Ev_printf Erasing_device, Ev_erase 0 (total_size d) err,
              Ev_printf Validating_erase] @ reads" and
    rds: "map read_of reads = map (\<lambda>b. Some (b, 1)) (all_blocks d)" and
    cnt: "fst (erase_test ERR_IO d w) =
             of_nat (length (filter (invalid_read (block_size d) (\<lambda>b. [erase_byte d])) reads))"
    by blast
  have "List.map_filter read_of reads = map (\<lambda>b. (b, 1)) (all_blocks d)"
    using rds by (rule map_filter_all_Some)
  then have "List.map_filter read_of (emitted w (snd (erase_test ERR_IO d w)))
           = map (\<lambda>b. (b, 1)) (all_blocks d)"
    unfolding evs by (simp add: List.map_filter_def)
  moreover have "sint (fst (erase_test ERR_IO d w)) =
      int (length (filter (invalid_read (block_size d) (\<lambda>b. [erase_byte d])) reads))"
    unfolding cnt using rds by (rule sint_count_of_reads(1))
  moreover have "filter (invalid_read (block_size d) (\<lambda>b. [erase_byte d]))
                  (emitted w (snd (erase_test ERR_IO d w)))
      = filter (invalid_read (block_size d) (\<lambda>b. [erase_byte d])) reads"
    unfolding evs by simp
  ultimately show ?thesis by simp
qed

text \<open>
  On the device whose block 2 reads back as \<open>0x01\<close> after the erase, one read of four
  fails and \<open>erase_test\<close> returns 1.
\<close>

theorem erase_test_counts_failed_blocks_witness:
  "sint (fst (erase_test (- 20) stuck_disk power_on)) = 1 \<and>
   List.map_filter read_of (emitted power_on (snd (erase_test (- 20) stuck_disk power_on)))
     = [(0, 1), (1, 1), (2, 1), (3, 1)]"
proof -
  have e: "erase stuck_disk (dstate power_on) 0 (total_size stuck_disk)
             = (16, \<lambda>block k. if block = 2 then 1 else 0)"
    by (simp add: stuck_disk_def ramdisk_def)
  have ok: "\<not> (16 :: ssize_t) <s 0" "16 = total_size stuck_disk"
    by (simp_all add: stuck_disk_def ramdisk_def word_sless_alt)
  have one: "length (filter (invalid_read (block_size stuck_disk) (\<lambda>b. [erase_byte stuck_disk]))
                  (emitted power_on (snd (erase_test (- 20) stuck_disk power_on)))) = 1"
    by code_simp
  have blocks: "map (\<lambda>b. (b, 1 :: uint)) (all_blocks stuck_disk) = [(0, 1), (1, 1), (2, 1), (3, 1)]"
    by code_simp
  from erase_test_counts_failed_blocks [OF e ok, of "- 20"] one blocks
  show ?thesis by simp
qed

text \<open>
  C5.  If no write of the call is answered with a negative status, \<open>write_test\<close> writes
  every block of the device, then reads every block once, in the order of the block
  numbers, and returns the number of those reads whose answer does not validate against
  the one-byte pattern \<open>[get_signature block]\<close> of the block read: \<open>0\<close> when every
  block reads back filled with its signature.
\<close>

theorem write_test_counts_failed_blocks:
  assumes "\<forall>e\<in>set (emitted w (snd (write_test d w))). \<not> write_failed e"
  shows "List.map_filter write_of (emitted w (snd (write_test d w)))
           = map (\<lambda>b. (replicate (unat (block_size d)) (get_signature b), b, 1)) (all_blocks d) \<and>
         List.map_filter read_of (emitted w (snd (write_test d w)))
           = map (\<lambda>b. (b, 1)) (all_blocks d) \<and>
         sint (fst (write_test d w)) =
           int (length (filter (invalid_read (block_size d) (\<lambda>b. [get_signature b]))
                  (emitted w (snd (write_test d w)))))"
proof -
  let ?wr = "\<lambda>b. (replicate (unat (block_size d)) (get_signature b), b, 1 :: uint)"
  let ?bad = "invalid_read (block_size d) (\<lambda>b. [get_signature b])"
  from write_test_ok_run [OF assms] obtain ws rs where
    evs: "emitted w (snd (write_test d w)) = ws @ rs" and
    wrs': "map write_of ws = map (\<lambda>b. Some (?wr b)) (all_blocks d)" and
    rds: "map read_of rs = map (\<lambda>b. Some (b, 1)) (all_blocks d)" and
    cnt: "fst (write_test d w) = of_nat (length (filter ?bad rs))"
    by blast
  have w_ws: "List.map_filter write_of ws = map ?wr (all_blocks d)"
    using wrs' by (rule map_filter_all_Some)
  have r_rs: "List.map_filter read_of rs = map (\<lambda>b. (b, 1)) (all_blocks d)"
    using rds by (rule map_filter_all_Some)
  have ws_kind: "read_of e = None \<and> \<not> ?bad e" if "e \<in> set ws" for e
    using all_of_map_Some [OF wrs' that] write_event_kind(1,3) by blast
  have rs_kind: "write_of e = None" if "e \<in> set rs" for e
    using all_of_map_Some [OF rds that] read_event_kind(1) by blast
  have "List.map_filter write_of rs = []"
    using rs_kind by (simp add: map_filter_all_None)
  moreover have "List.map_filter read_of ws = []"
    using ws_kind by (simp add: map_filter_all_None)
  moreover have "filter ?bad ws = []"
    using ws_kind by simp
  moreover have "sint (fst (write_test d w)) = int (length (filter ?bad rs))"
    unfolding cnt using rds by (rule sint_count_of_reads(1))
  ultimately show ?thesis
    unfolding evs using w_ws r_rs by (simp add: List.map_filter_def)
qed

text \<open>
  On the four-block device every write persists and \<open>write_test\<close> returns 0; on the device
  that drops its writes, started with every byte \<open>0xff\<close>, all four blocks fail and it
  returns 4.
\<close>

theorem write_test_counts_failed_blocks_witness:
  "sint (fst (write_test ramdisk power_on)) = 0 \<and>
   sint (fst (write_test read_only_disk power_on)) = 4 \<and>
   List.map_filter write_of (emitted power_on (snd (write_test ramdisk power_on)))
     = [([0, 0, 0, 0], 0, 1), ([1, 1, 1, 1], 1, 1), ([2, 2, 2, 2], 2, 1), ([3, 3, 3, 3], 3, 1)]"
proof -
  have h1: "\<forall>e\<in>set (emitted power_on (snd (write_test ramdisk power_on))). \<not> write_failed e"
    by code_simp
  have h2: "\<forall>e\<in>set (emitted power_on (snd (write_test read_only_disk power_on))). \<not> write_failed e"
    by code_simp
  have c1: "length (filter (invalid_read (block_size ramdisk) (\<lambda>b. [get_signature b]))
                  (emitted power_on (snd (write_test ramdisk power_on)))) = 0"
    by code_simp
  have c2: "length (filter (invalid_read (block_size read_only_disk) (\<lambda>b. [get_signature b]))
                  (emitted power_on (snd (write_test read_only_disk power_on)))) = 4"
    by code_simp
  have blocks: "map (\<lambda>b. (replicate (unat (block_size ramdisk)) (get_signature b), b, 1 :: uint))
       (all_blocks ramdisk)
     = [([0, 0, 0, 0], 0, 1), ([1, 1, 1, 1], 1, 1), ([2, 2, 2, 2], 2, 1), ([3, 3, 3, 3], 3, 1)]"
    by code_simp
  from write_test_counts_failed_blocks [OF h1] write_test_counts_failed_blocks [OF h2]
    c1 c2 blocks
  show ?thesis by simp
qed




text \<open>
  C10.  If the device answers the erase of the whole device with \<open>total_size\<close>, read as
  a non-negative number, so that \<open>erase_test\<close> goes on to validate the blocks, the value
  \<open>erase_test\<close> returns is between \<open>0\<close> and \<open>block_count\<close>.  If no write of a call
  of \<open>write_test\<close> is answered with a negative status, so that \<open>write_test\<close> goes on to
  validate the blocks, the value it returns is between \<open>0\<close> and \<open>block_count\<close>.
\<close>

theorem error_counts_within_block_count:
  "(\<not> fst (erase d (dstate w) 0 (total_size d)) <s 0 \<and>
    fst (erase d (dstate w) 0 (total_size d)) = total_size d \<longrightarrow>
      0 \<le> sint (fst (erase_test ERR_IO d w)) \<and>
      sint (fst (erase_test ERR_IO d w)) \<le> uint (block_count d)) \<and>
   ((\<forall>e\<in>set (emitted w (snd (write_test d w))). \<not> write_failed e) \<longrightarrow>
      0 \<le> sint (fst (write_test d w)) \<and>
      sint (fst (write_test d w)) \<le> uint (block_count d))"
proof -
  have erase_part: "0 \<le> sint (fst (erase_test ERR_IO d w)) \<and>
      sint (fst (erase_test ERR_IO d w)) \<le> uint (block_count d)"
    if ok: "\<not> fst (erase d (dstate w) 0 (total_size d)) <s 0"
      "fst (erase d (dstate w) 0 (total_size d)) = total_size d"
  proof -
    obtain err s' where er: "erase d (dstate w) 0 (total_size d) = (err, s')"
      by (metis surj_pair)
    with ok have "\<not> err <s 0" and "err = total_size d"
      by simp_all
    from erase_test_ok_run [OF er this, of ERR_IO] obtain reads where
      rds: "map read_of reads = map (\<lambda>b. Some (b, 1)) (all_blocks d)" and
      cnt: "fst (erase_test ERR_IO d w) =
             of_nat (length (filter (invalid_read (block_size d) (\<lambda>b. [erase_byte d])) reads))"
      by blast
    show ?thesis
      unfolding cnt using sint_count_of_reads [OF rds] by simp
  qed
  have write_part: "0 \<le> sint (fst (write_test d w)) \<and>
      sint (fst (write_test d w)) \<le> uint (block_count d)"
    if ok: "\<forall>e\<in>set (emitted w (snd (write_test d w))). \<not> write_failed e"
  proof -
    from write_test_ok_run [OF ok] obtain rs where
      rds: "map read_of rs = map (\<lambda>b. Some (b, 1)) (all_blocks d)" and
      cnt: "fst (write_test d w) =
             of_nat (length (filter (invalid_read (block_size d) (\<lambda>b. [get_signature b])) rs))"
      by blast
    show ?thesis
      unfolding cnt using sint_count_of_reads [OF rds] by simp
  qed
  from erase_part write_part show ?thesis by blast
qed

text \<open>
  On the device whose block 2 does not erase, \<open>erase_test\<close> returns 1 of 4; on the device
  that drops its writes, \<open>write_test\<close> returns 4 of 4.
\<close>

theorem error_counts_within_block_count_witness:
  "0 \<le> sint (fst (erase_test (- 20) stuck_disk power_on)) \<and>
   sint (fst (erase_test (- 20) stuck_disk power_on)) \<le> uint (block_count stuck_disk) \<and>
   0 \<le> sint (fst (write_test read_only_disk power_on)) \<and>
   sint (fst (write_test read_only_disk power_on)) \<le> uint (block_count read_only_disk) \<and>
   sint (fst (erase_test (- 20) stuck_disk power_on)) = 1 \<and>
   sint (fst (write_test read_only_disk power_on)) = 4 \<and>
   uint (block_count stuck_disk) = 4 \<and> uint (block_count read_only_disk) = 4"
proof -
  have e: "\<not> fst (erase stuck_disk (dstate power_on) 0 (total_size stuck_disk)) <s 0 \<and>
      fst (erase stuck_disk (dstate power_on) 0 (total_size stuck_disk)) = total_size stuck_disk"
    by (simp add: stuck_disk_def ramdisk_def word_sless_alt)
  have h: "\<forall>e\<in>set (emitted power_on (snd (write_test read_only_disk power_on))). \<not> write_failed e"
    by code_simp
  have v1: "sint (fst (erase_test (- 20) stuck_disk power_on)) = 1"
    by code_simp
  have v2: "sint (fst (write_test read_only_disk power_on)) = 4"
    by code_simp
  have n: "uint (block_count stuck_disk) = 4" "uint (block_count read_only_disk) = 4"
    by (simp_all add: stuck_disk_def read_only_disk_def ramdisk_def)
  have a: "0 \<le> sint (fst (erase_test (- 20) stuck_disk power_on)) \<and>
      sint (fst (erase_test (- 20) stuck_disk power_on)) \<le> uint (block_count stuck_disk)"
    using error_counts_within_block_count
            [where d = stuck_disk and w = power_on and ERR_IO = "- 20", THEN conjunct1] e
    by blast
  have b: "0 \<le> sint (fst (write_test read_only_disk power_on)) \<and>
      sint (fst (write_test read_only_disk power_on)) \<le> uint (block_count read_only_disk)"
    using error_counts_within_block_count
            [where d = read_only_disk and w = power_on, THEN conjunct2] h
    by blast
  from a b v1 v2 n show ?thesis by blast
qed

text \<open>
  C1.  \<open>bio_test_device\<close> returns \<open>0\<close> exactly when \<open>erase_test\<close> returns \<open>0\<close> and
  \<open>write_test\<close>, run in the state that \<open>erase_test\<close> and the line printed after it
  leave, returns \<open>0\<close>.  In every other case, a negative or a positive result of either
  phase, it returns \<open>- 1\<close>.
\<close>

theorem bio_test_device_verdict:
  "fst (bio_test_device ERR_IO d w) =
     (if fst (erase_test ERR_IO d w) = 0 \<and>
         fst (write_test d (printf (Discovered_errors_testing_erase 0)
                (snd (erase_test ERR_IO d w)))) = 0
      then 0 else - 1)"
proof -
  obtain r1 w1 where e: "erase_test ERR_IO d w = (r1, w1)"
    by (metis surj_pair)
  obtain r2 w3 where wt: "write_test d (printf (Discovered_errors_testing_erase 0) w1) = (r2, w3)"
    by (metis surj_pair)
  have zero: "\<not> (0 :: ssize_t) <s 0"
    by simp
  show ?thesis
  proof (cases "r1 = 0")
    case True
    with e wt zero show ?thesis
      by (simp add: bio_test_device_def Let_def)
  next
    case False
    with e show ?thesis
      by (simp add: bio_test_device_def Let_def)
  qed
qed

text \<open>
  The four-block device passes; the device whose block 2 does not erase fails with
  \<open>erase_test\<close> returning 1; the device that drops its writes fails with \<open>erase_test\<close>
  returning 0 and \<open>write_test\<close> returning 3.
\<close>

theorem bio_test_device_verdict_witness:
  "fst (bio_test_device (- 20) ramdisk power_on) = 0 \<and>
   fst (bio_test_device (- 20) stuck_disk power_on) = - 1 \<and>
   fst (bio_test_device (- 20) read_only_disk power_on) = - 1"
proof -
  have a1: "fst (erase_test (- 20) ramdisk power_on) = 0"
    by code_simp
  have a2: "fst (write_test ramdisk (printf (Discovered_errors_testing_erase 0)
                (snd (erase_test (- 20) ramdisk power_on)))) = 0"
    by code_simp
  have b1: "fst (erase_test (- 20) stuck_disk power_on) = 1"
    by code_simp
  have c1: "fst (erase_test (- 20) read_only_disk power_on) = 0"
    by code_simp
  have c2: "fst (write_test read_only_disk (printf (Discovered_errors_testing_erase 0)
                (snd (erase_test (- 20) read_only_disk power_on)))) = 3"
    by code_simp
  have "fst (bio_test_device (- 20) ramdisk power_on) = 0"
    using bio_test_device_verdict [of "- 20" ramdisk power_on] a1 a2 by simp
  moreover have "fst (bio_test_device (- 20) stuck_disk power_on) = - 1"
    using bio_test_device_verdict [of "- 20" stuck_disk power_on] b1 by simp
  moreover have "fst (bio_test_device (- 20) read_only_disk power_on) = - 1"
    using bio_test_device_verdict [of "- 20" read_only_disk power_on] c1 c2 by simp
  ultimately show ?thesis by blast
qed

text \<open>
  C7.  If \<open>erase_test\<close> returns a positive number, \<open>bio_test_device\<close> returns \<open>- 1\<close>;
  after \<open>erase_test\<close> it only prints two lines, the count and that it does not go on,
  and no event of the whole call is a write.
\<close>

theorem failed_erase_skips_write_test:
  assumes "0 <s fst (erase_test ERR_IO d w)"
  shows "fst (bio_test_device ERR_IO d w) = - 1 \<and>
         snd (bio_test_device ERR_IO d w) =
           printf Not_continuing_to_test_writes
             (printf (Discovered_errors_testing_erase (fst (erase_test ERR_IO d w)))
                (snd (erase_test ERR_IO d w))) \<and>
         List.map_filter write_of (emitted w (snd (bio_test_device ERR_IO d w))) = []"
proof -
  obtain r1 w1 where e: "erase_test ERR_IO d w = (r1, w1)"
    by (metis surj_pair)
  with assms have pos: "0 <s r1"
    by simp
  then have "0 < sint r1"
    by (simp add: word_sless_alt)
  then have nz: "r1 \<noteq> 0" and nonneg: "\<not> r1 <s 0"
    by (auto simp: word_sless_alt)
  have out: "bio_test_device ERR_IO d w =
      (- 1, printf Not_continuing_to_test_writes (printf (Discovered_errors_testing_erase r1) w1))"
    using e nz nonneg by (simp add: bio_test_device_def Let_def)
  from erase_test_trace [of ERR_IO d w] e obtain evs where
    tr: "trace w1 = trace w @ evs" and nw: "\<forall>e\<in>set evs. write_of e = None"
    by auto
  have "trace (snd (bio_test_device ERR_IO d w)) =
      trace w @ (evs @ [Ev_printf (Discovered_errors_testing_erase r1),
                        Ev_printf Not_continuing_to_test_writes])"
    using out tr by (simp add: printf_def)
  then have "emitted w (snd (bio_test_device ERR_IO d w)) =
      evs @ [Ev_printf (Discovered_errors_testing_erase r1),
             Ev_printf Not_continuing_to_test_writes]"
    by (rule emitted_append)
  moreover have "List.map_filter write_of (evs @ [Ev_printf (Discovered_errors_testing_erase r1),
             Ev_printf Not_continuing_to_test_writes]) = []"
    using nw by (intro map_filter_all_None) auto
  ultimately show ?thesis
    using out e by simp
qed

text \<open>
  On the device whose block 2 does not erase, \<open>erase_test\<close> returns 1 and the test stops
  there.
\<close>

theorem failed_erase_skips_write_test_witness:
  "fst (bio_test_device (- 20) stuck_disk power_on) = - 1 \<and>
   List.map_filter write_of (emitted power_on (snd (bio_test_device (- 20) stuck_disk power_on))) = [] \<and>
   fst (erase_test (- 20) stuck_disk power_on) = 1"
proof -
  have one: "fst (erase_test (- 20) stuck_disk power_on) = 1"
    by code_simp
  then have "0 <s fst (erase_test (- 20) stuck_disk power_on)"
    by (simp add: word_sless_alt)
  from failed_erase_skips_write_test [OF this] one show ?thesis
    by blast
qed

text \<open>
  C9.  The value that \<open>bio_test_device\<close> returns does not tell the phase that failed nor
  its count.  The device whose block 2 does not erase fails in the erase phase with a
  count of 1, the device that drops its writes fails in the write phase with a count of 3,
  and \<open>bio_test_device\<close> returns the same value for both.
\<close>

theorem bio_test_device_result_counterexample:
  "fst (bio_test_device (- 20) stuck_disk power_on)
     = fst (bio_test_device (- 20) read_only_disk power_on) \<and>
   fst (erase_test (- 20) stuck_disk power_on) = 1 \<and>
   fst (erase_test (- 20) read_only_disk power_on) = 0 \<and>
   fst (write_test read_only_disk (printf (Discovered_errors_testing_erase 0)
          (snd (erase_test (- 20) read_only_disk power_on)))) = 3"
  by code_simp

text \<open>
  C9, as the code has it.  \<open>bio_test_device\<close> returns \<open>0\<close> or \<open>- 1\<close> and nothing
  else.  The phase that failed and its number are printed, not returned.  With \<open>r1\<close> the
  result of \<open>erase_test\<close>: if \<open>r1\<close> is negative the call ends with the line
  \<^verbatim>\<open>error r1 performing erase test\<close>; if \<open>r1\<close> is positive it ends with the lines
  \<^verbatim>\<open>discovered r1 error(s) while testing erase.\<close> and
  \<^verbatim>\<open>not continuing to test writes.\<close>; if \<open>r1\<close> is zero, \<open>write_test\<close> runs after the
  line \<^verbatim>\<open>discovered 0 error(s) while testing erase.\<close>, and with \<open>r2\<close> its result the
  call ends with the line \<^verbatim>\<open>Discovered r2 error(s) while testing write.\<close> and returns
  \<open>0\<close> if \<open>r2\<close> is zero and \<open>- 1\<close> otherwise.
\<close>

theorem bio_test_device_reports_by_printing:
  fixes d :: "'s bdev" and w :: "'s world" and ERR_IO :: ssize_t
  defines "r1 \<equiv> fst (erase_test ERR_IO d w)"
  defines "w1 \<equiv> snd (erase_test ERR_IO d w)"
  defines "w2 \<equiv> printf (Discovered_errors_testing_erase 0) (snd (erase_test ERR_IO d w))"
  defines "r2 \<equiv> fst (write_test d (printf (Discovered_errors_testing_erase 0)
                        (snd (erase_test ERR_IO d w))))"
  shows "(fst (bio_test_device ERR_IO d w) = 0 \<or> fst (bio_test_device ERR_IO d w) = - 1) \<and>
         (r1 <s 0 \<longrightarrow>
            bio_test_device ERR_IO d w = (- 1, printf (Error_performing_erase_test r1) w1)) \<and>
         (0 <s r1 \<longrightarrow>
            bio_test_device ERR_IO d w =
              (- 1, printf Not_continuing_to_test_writes
                      (printf (Discovered_errors_testing_erase r1) w1))) \<and>
         (r1 = 0 \<longrightarrow>
            bio_test_device ERR_IO d w =
              (if r2 = 0 then 0 else - 1,
               printf (Discovered_errors_testing_write r2) (snd (write_test d w2))))"
proof -
  have e: "erase_test ERR_IO d w = (r1, w1)"
    by (simp add: r1_def w1_def)
  have wt: "write_test d w2 = (r2, snd (write_test d w2))"
    by (simp add: r2_def w2_def)
  have w2: "w2 = printf (Discovered_errors_testing_erase 0) w1"
    by (simp add: w2_def w1_def)
  have neg: "bio_test_device ERR_IO d w = (- 1, printf (Error_performing_erase_test r1) w1)"
    if "r1 <s 0"
    using that e by (simp add: bio_test_device_def)
  have pos: "bio_test_device ERR_IO d w =
      (- 1, printf Not_continuing_to_test_writes (printf (Discovered_errors_testing_erase r1) w1))"
    if "0 <s r1"
  proof -
    from that have "0 < sint r1"
      by (simp add: word_sless_alt)
    then have "r1 \<noteq> 0" and "\<not> r1 <s 0"
      by (auto simp: word_sless_alt)
    with e show ?thesis
      by (simp add: bio_test_device_def Let_def)
  qed
  have zero: "bio_test_device ERR_IO d w =
      (if r2 = 0 then 0 else - 1,
       printf (Discovered_errors_testing_write r2) (snd (write_test d w2)))"
    if "r1 = 0"
  proof -
    have "erase_test ERR_IO d w = (0, w1)"
      using e that by simp
    moreover have "write_test d (printf (Discovered_errors_testing_erase 0) w1)
        = (r2, snd (write_test d w2))"
      using wt w2 by simp
    ultimately show ?thesis
      by (simp add: bio_test_device_def Let_def)
  qed
  have "r1 <s 0 \<or> r1 = 0 \<or> 0 <s r1"
    by (rule signed.less_linear)
  then have two: "fst (bio_test_device ERR_IO d w) = 0 \<or>
      fst (bio_test_device ERR_IO d w) = - 1"
  proof (elim disjE)
    assume "r1 <s 0"
    then show ?thesis by (simp add: neg)
  next
    assume "r1 = 0"
    then show ?thesis by (simp add: zero)
  next
    assume "0 <s r1"
    then show ?thesis by (simp add: pos)
  qed
  from two neg pos zero show ?thesis by blast
qed

text \<open>
  On the device whose block 2 does not erase the call returns \<open>- 1\<close> and ends with the
  two lines of the erase phase.
\<close>

theorem bio_test_device_reports_by_printing_witness:
  "bio_test_device (- 20) stuck_disk power_on =
     (- 1, printf Not_continuing_to_test_writes
             (printf (Discovered_errors_testing_erase 1)
                (snd (erase_test (- 20) stuck_disk power_on)))) \<and>
   fst (erase_test (- 20) stuck_disk power_on) = 1"
proof -
  have one: "fst (erase_test (- 20) stuck_disk power_on) = 1"
    by code_simp
  then have "0 <s fst (erase_test (- 20) stuck_disk power_on)"
    by (simp add: word_sless_alt)
  with bio_test_device_reports_by_printing [of "- 20" stuck_disk power_on]
  have "bio_test_device (- 20) stuck_disk power_on =
     (- 1, printf Not_continuing_to_test_writes
             (printf (Discovered_errors_testing_erase (fst (erase_test (- 20) stuck_disk power_on)))
                (snd (erase_test (- 20) stuck_disk power_on))))"
    by blast
  with one show ?thesis by simp
qed

end
